theory Spec2Isabelle
  imports Complex_Main
begin

section \<open>JavaScript primitives used by the services\<close>

text \<open>
  \<open>Math.round\<close> rounds to the nearest integer, a tie going up. The latencies of the source
  are IEEE doubles; they are taken here as exact rationals, and so are their sums, products and
  quotients, which the source rounds to a double at each operation. The two agree where every
  intermediate value is a double (on whole milliseconds, for instance) and can differ in the last
  place elsewhere.
\<close>

definition js_round :: "rat \<Rightarrow> int" where
  "js_round q = \<lfloor>q + 1 / 2\<rfloor>"

text \<open>
  \<open>Array.prototype.slice(start)\<close> with an integer \<open>start\<close>: a negative \<open>start\<close> counts
  from the end and is clamped at the first element, a non-negative one is clamped at the length.
\<close>

definition js_slice :: "int \<Rightarrow> 'a list \<Rightarrow> 'a list" where
  "js_slice start xs =
     (if start < 0 then drop (nat (max (int (length xs) + start) 0)) xs
      else drop (nat (min start (int (length xs)))) xs)"

text \<open>Decimal rendering of a non-negative integer inside a template string.\<close>

definition digit_char :: "nat \<Rightarrow> char" where
  "digit_char d = ''0123456789'' ! d"

function decimal :: "nat \<Rightarrow> string" where
  "decimal n = (if n < 10 then [digit_char n] else decimal (n div 10) @ [digit_char (n mod 10)])"
  by pat_completeness auto
termination
  by (relation "measure id") auto

text \<open>
  A call either returns or throws; both leave a state behind. \<open>EventEmitter.emit\<close> of Node
  calls the listeners of the event synchronously, in the order of their registration, and has no
  handler of its own: what a listener throws leaves \<open>emit\<close>, and the listeners after it are
  not called.
\<close>

datatype 'w outcome = Returned 'w | Threw 'w

type_synonym ('e, 'w) listener = "'e \<Rightarrow> 'w \<Rightarrow> 'w outcome"

fun emit :: "('e, 'w) listener list \<Rightarrow> 'e \<Rightarrow> 'w \<Rightarrow> 'w outcome" where
  "emit [] e w = Returned w"
| "emit (l # ls) e w = (case l e w of Returned w' \<Rightarrow> emit ls e w' | Threw w' \<Rightarrow> Threw w')"

section \<open>The logger service (K11Logger)\<close>

datatype level = Debug | Info | Warn | Error | Critical

fun level_name :: "level \<Rightarrow> string" where
  "level_name Debug = ''debug''"
| "level_name Info = ''info''"
| "level_name Warn = ''warn''"
| "level_name Error = ''error''"
| "level_name Critical = ''critical''"

type_synonym meta = "(string \<times> int) list"

text \<open>
  An entry as \<open>_write\<close> builds it. The id is a clock reading and the random suffix; the
  timestamp is kept as the clock reading it renders.
\<close>

record entry =
  e_id :: "int \<times> string"
  e_ts :: int
  e_level :: level
  e_module :: string
  e_message :: string
  e_meta :: "meta option"
  e_uptime :: int

text \<open>
  \<open>_write\<close> reads the clock three times, in ms: \<open>new Date()\<close> for the timestamp, then
  \<open>Date.now()\<close> for the uptime and \<open>Date.now()\<close> again for the id.
\<close>

record clock =
  k_date :: int
  k_uptime :: int
  k_id :: int

text \<open>
  The arguments of one call of \<open>_write\<close>, with what the call reads from its environment:
  the three readings of the clock and the suffix drawn from \<open>Math.random()\<close>. The level is
  one of the five the public methods \<open>debug\<close>, \<open>info\<close>, \<open>warn\<close>, \<open>error\<close> and
  \<open>critical\<close> pass.
\<close>

record write_call =
  c_level :: level
  c_module :: "string option"
  c_message :: string
  c_meta :: "meta option"
  c_clock :: clock
  c_rand :: string

record logger =
  lg_buffer :: "entry list"
  lg_stats :: "level \<Rightarrow> nat"
  lg_startTime :: int

text \<open>The constructor: an empty buffer and the five counters at zero.\<close>

definition new_logger :: "int \<Rightarrow> logger" where
  "new_logger t0 = \<lparr>lg_buffer = [], lg_stats = (\<lambda>_. 0), lg_startTime = t0\<rparr>"

text \<open>Lines 305-317 of the service: the entry. \<open>module || 'CORE'\<close> replaces an absent or
  empty module; \<open>meta || null\<close> keeps an object.\<close>

definition make_entry :: "int \<Rightarrow> write_call \<Rightarrow> entry" where
  "make_entry t0 c =
     \<lparr>e_id = (k_id (c_clock c), c_rand c),
      e_ts = k_date (c_clock c),
      e_level = c_level c,
      e_module = (case c_module c of None \<Rightarrow> ''CORE'' | Some m \<Rightarrow> if m = [] then ''CORE'' else m),
      e_message = c_message c,
      e_meta = c_meta c,
      e_uptime = (k_uptime (c_clock c) - t0) div 1000\<rparr>"

text \<open>Lines 319-324: the lifetime counter of the level, the push, and one shift when the
  buffer has grown past \<open>MAX_LINES\<close>, a natural number read from the environment when the
  module is loaded (2000 by default).\<close>

definition store :: "nat \<Rightarrow> entry \<Rightarrow> logger \<Rightarrow> logger" where
  "store MAX_LINES e lg =
     (let st = (lg_stats lg)(e_level e := lg_stats lg (e_level e) + 1);
          buf = lg_buffer lg @ [e]
      in lg\<lparr>lg_stats := st,
            lg_buffer := (if length buf > MAX_LINES then tl buf else buf)\<rparr>)"

datatype 'a completion = Normal 'a | Thrown

record 'w write_result =
  wr_result :: "entry completion"
  wr_logger :: logger
  wr_world :: 'w

text \<open>
  \<open>_write\<close>: the entry, the counters and the buffer, then \<open>this.emit('log', entry)\<close>,
  then the entry is returned. The output on the terminal and the append to the log file, whose
  callback ignores its error, change nothing the service reads back and are left out.
\<close>

definition K11Logger_write ::
  "nat \<Rightarrow> (entry, 'w) listener list \<Rightarrow> write_call \<Rightarrow> logger \<Rightarrow> 'w \<Rightarrow> 'w write_result" where
  "K11Logger_write MAX_LINES ls c lg w =
     (let e = make_entry (lg_startTime lg) c;
          lg' = store MAX_LINES e lg
      in case emit ls e w of
           Returned w' \<Rightarrow> \<lparr>wr_result = Normal e, wr_logger = lg', wr_world = w'\<rparr>
         | Threw w' \<Rightarrow> \<lparr>wr_result = Thrown, wr_logger = lg', wr_world = w'\<rparr>)"

text \<open>A sequence of calls of \<open>_write\<close>. A call that throws leaves the logger as it is then, and
  the next call works on that state.\<close>

fun record_all ::
  "nat \<Rightarrow> (entry, 'w) listener list \<Rightarrow> write_call list \<Rightarrow> logger \<Rightarrow> 'w \<Rightarrow> logger \<times> 'w" where
  "record_all MAX_LINES ls [] lg w = (lg, w)"
| "record_all MAX_LINES ls (c # cs) lg w =
     (let r = K11Logger_write MAX_LINES ls c lg w
      in record_all MAX_LINES ls cs (wr_logger r) (wr_world r))"

text \<open>
  \<open>getLogs({level, module, limit = 200})\<close>. A filter applies when its value is truthy, that
  is a non-empty string; \<open>limit\<close> is an integer, 200 when absent (a limit that is not an
  integer is not modelled).
\<close>

definition truthy :: "string option \<Rightarrow> bool" where
  "truthy s = (case s of None \<Rightarrow> False | Some x \<Rightarrow> x \<noteq> [])"

definition matching :: "string option \<Rightarrow> string option \<Rightarrow> entry list \<Rightarrow> entry list" where
  "matching lvl md es =
     (let es1 = (if truthy lvl then filter (\<lambda>e. Some (level_name (e_level e)) = lvl) es else es)
      in if truthy md then filter (\<lambda>e. Some (e_module e) = md) es1 else es1)"

definition getLogs :: "logger \<Rightarrow> string option \<Rightarrow> string option \<Rightarrow> int option \<Rightarrow> entry list" where
  "getLogs lg lvl md lmt =
     (let n = (case lmt of None \<Rightarrow> 200 | Some k \<Rightarrow> k)
      in rev (js_slice (- n) (matching lvl md (lg_buffer lg))))"

record log_stats =
  ls_debug :: nat
  ls_info :: nat
  ls_warn :: nat
  ls_error :: nat
  ls_critical :: nat
  ls_total :: nat
  ls_uptimeMs :: int
  ls_bufferSize :: nat

text \<open>\<open>getStats\<close>: the five counters, their sum by \<open>reduce\<close> from 0, the uptime and the length
  of the buffer.\<close>

definition getStats :: "logger \<Rightarrow> int \<Rightarrow> log_stats" where
  "getStats lg now =
     \<lparr>ls_debug = lg_stats lg Debug,
      ls_info = lg_stats lg Info,
      ls_warn = lg_stats lg Warn,
      ls_error = lg_stats lg Error,
      ls_critical = lg_stats lg Critical,
      ls_total = foldl (+) 0 (map (lg_stats lg) [Debug, Info, Warn, Error, Critical]),
      ls_uptimeMs = now - lg_startTime lg,
      ls_bufferSize = length (lg_buffer lg)\<rparr>"

section \<open>The request tracker\<close>

record route_stats =
  r_count :: nat
  r_totalMs :: rat
  r_errors :: nat

text \<open>
  The statistics object of the middleware. \<open>byRoute\<close> is an object keyed by the route
  string, read back by \<open>Object.entries\<close> in the order the keys were first stored (a route
  key holds a space, so it is never an array index): an association list in that order.
\<close>

record stats =
  s_total :: nat
  s_ok :: nat
  s_errors4xx :: nat
  s_errors5xx :: nat
  s_slow :: nat
  s_avgLatencyMs :: int
  s_byRoute :: "(string \<times> route_stats) list"
  s_startTime :: int

definition new_stats :: "int \<Rightarrow> stats" where
  "new_stats t0 =
     \<lparr>s_total = 0, s_ok = 0, s_errors4xx = 0, s_errors5xx = 0, s_slow = 0,
      s_avgLatencyMs = 0, s_byRoute = [], s_startTime = t0\<rparr>"

definition SLOW_THRESHOLD_MS :: rat where
  "SLOW_THRESHOLD_MS = 500"

text \<open>What the \<open>finish\<close> handler reads: the method and path of the request, the status code
  of the response and the elapsed time in ms.\<close>

record request =
  rq_method :: string
  rq_path :: string
  rq_status :: nat
  rq_elapsedMs :: rat

definition route_key :: "request \<Rightarrow> string" where
  "route_key r = rq_method r @ '' '' @ rq_path r"

text \<open>Lines 46-49: the route's bucket is created at the end of the object when absent, then
  updated in place. \<open>totalMs\<close> is the exact sum of the latencies of the route; the source's
  \<open>totalMs += elapsedMs\<close> rounds to a double at each addition.\<close>

definition touch_route ::
  "string \<Rightarrow> nat \<Rightarrow> rat \<Rightarrow> (string \<times> route_stats) list \<Rightarrow> (string \<times> route_stats) list" where
  "touch_route route status ms br =
     (let br1 = (if map_of br route = None
                 then br @ [(route, \<lparr>r_count = 0, r_totalMs = 0, r_errors = 0\<rparr>)] else br)
      in map (\<lambda>(k, v). if k = route
                then (k, v\<lparr>r_count := r_count v + 1,
                           r_totalMs := r_totalMs v + ms,
                           r_errors := (if status \<ge> 400 then r_errors v + 1 else r_errors v)\<rparr>)
                else (k, v)) br1)"

text \<open>Lines 34-49: the global counters, the rolling average and the route's bucket.\<close>

definition update_stats :: "stats \<Rightarrow> request \<Rightarrow> stats" where
  "update_stats st r =
     (let status = rq_status r; ms = rq_elapsedMs r; total = s_total st + 1
      in st\<lparr>s_total := total,
            s_errors5xx := (if status \<ge> 500 then s_errors5xx st + 1 else s_errors5xx st),
            s_errors4xx := (if status \<ge> 500 then s_errors4xx st
                            else if status \<ge> 400 then s_errors4xx st + 1 else s_errors4xx st),
            s_ok := (if status \<ge> 500 then s_ok st
                     else if status \<ge> 400 then s_ok st else s_ok st + 1),
            s_slow := (if ms > SLOW_THRESHOLD_MS then s_slow st + 1 else s_slow st),
            s_avgLatencyMs :=
              js_round ((of_int (s_avgLatencyMs st) * of_nat (total - 1) + ms) / of_nat total),
            s_byRoute := touch_route (route_key r) status ms (s_byRoute st)\<rparr>)"

text \<open>Lines 52-59: the call of the logger the handler makes, if any. The readings of the clock
  and the random suffix are what \<open>_write\<close> will read.\<close>

definition slow_or_error_log :: "clock \<Rightarrow> string \<Rightarrow> request \<Rightarrow> write_call option" where
  "slow_or_error_log clk rnd r =
     (if rq_elapsedMs r > SLOW_THRESHOLD_MS then
        Some \<lparr>c_level = Warn, c_module = Some ''REQUEST'',
              c_message = ''Lento: '' @ route_key r,
              c_meta = Some [(''ms'', js_round (rq_elapsedMs r)), (''status'', int (rq_status r))],
              c_clock = clk, c_rand = rnd\<rparr>
      else if rq_status r \<ge> 500 then
        Some \<lparr>c_level = Error, c_module = Some ''REQUEST'',
              c_message = ''Erro '' @ decimal (rq_status r) @ '': '' @ route_key r,
              c_meta = Some [(''ms'', js_round (rq_elapsedMs r))],
              c_clock = clk, c_rand = rnd\<rparr>
      else None)"

record 'w finish_result =
  fr_thrown :: bool
  fr_stats :: stats
  fr_logger :: logger
  fr_world :: 'w

text \<open>The \<open>finish\<close> handler of \<open>requestTracker\<close>, the specification's
  \<open>recordCompletion\<close>: the statistics first, then the logger.\<close>

definition recordCompletion ::
  "nat \<Rightarrow> (entry, 'w) listener list \<Rightarrow> clock \<Rightarrow> string \<Rightarrow> request \<Rightarrow>
     stats \<Rightarrow> logger \<Rightarrow> 'w \<Rightarrow> 'w finish_result" where
  "recordCompletion MAX_LINES ls clk rnd r st lg w =
     (let st' = update_stats st r
      in case slow_or_error_log clk rnd r of
           None \<Rightarrow> \<lparr>fr_thrown = False, fr_stats = st', fr_logger = lg, fr_world = w\<rparr>
         | Some c \<Rightarrow>
             (let wr = K11Logger_write MAX_LINES ls c lg w
              in \<lparr>fr_thrown = (wr_result wr = Thrown), fr_stats = st',
                   fr_logger = wr_logger wr, fr_world = wr_world wr\<rparr>))"

text \<open>The statistics after a sequence of completed requests.\<close>

definition completions :: "request list \<Rightarrow> stats \<Rightarrow> stats" where
  "completions rs st = foldl update_stats st rs"

record top_route =
  tr_route :: string
  tr_count :: nat
  tr_avgMs :: int
  tr_errors :: nat

text \<open>
  \<open>topRoutes\<close> of \<open>requestTracker.getStats\<close>. \<open>Array.prototype.sort\<close> is stable, and
  the comparator \<open>b[1].count - a[1].count\<close> puts the larger count first: a stable sort on the
  negated count.
\<close>

definition route_view :: "string \<times> route_stats \<Rightarrow> top_route" where
  "route_view kv =
     \<lparr>tr_route = fst kv, tr_count = r_count (snd kv),
      tr_avgMs = js_round (r_totalMs (snd kv) / of_nat (r_count (snd kv))),
      tr_errors = r_errors (snd kv)\<rparr>"

definition by_count_desc :: "(string \<times> route_stats) list \<Rightarrow> (string \<times> route_stats) list" where
  "by_count_desc br = sort_key (\<lambda>kv. - int (r_count (snd kv))) br"

definition topRoutes :: "stats \<Rightarrow> top_route list" where
  "topRoutes st = map route_view (take 10 (by_count_desc (s_byRoute st)))"

record request_stats =
  rs_stats :: stats
  rs_uptimeMs :: int
  rs_topRoutes :: "top_route list"

definition requestTracker_getStats :: "stats \<Rightarrow> int \<Rightarrow> request_stats" where
  "requestTracker_getStats st now =
     \<lparr>rs_stats = st, rs_uptimeMs = now - s_startTime st, rs_topRoutes = topRoutes st\<rparr>"

section \<open>The log stream (server-sent events)\<close>

datatype msg = Connected int | Data entry

text \<open>
  A response object is known by a number. What was written to it is kept in order; a broken
  one throws on \<open>write\<close>. \<open>_sseClients\<close> is a \<open>Set\<close>, iterated in insertion order: a list
  without repetition.
\<close>

record sink =
  received :: "msg list"
  broken :: bool

record sse =
  clients :: "nat list"
  sinks :: "nat \<Rightarrow> sink"

definition res_write :: "nat \<Rightarrow> msg \<Rightarrow> sse \<Rightarrow> sse outcome" where
  "res_write c m w =
     (if broken (sinks w c) then Threw w
      else Returned (w\<lparr>sinks := (sinks w)(c := (sinks w c)\<lparr>received := received (sinks w c) @ [m]\<rparr>)\<rparr>))"

definition sse_add :: "nat \<Rightarrow> sse \<Rightarrow> sse" where
  "sse_add c w = (if c \<in> set (clients w) then w else w\<lparr>clients := clients w @ [c]\<rparr>)"




text \<open>\<open>forEach\<close> over messages written to one response, outside any \<open>try\<close>.\<close>

fun write_each :: "nat \<Rightarrow> msg list \<Rightarrow> sse \<Rightarrow> sse outcome" where
  "write_each c [] w = Returned w"
| "write_each c (m # ms) w =
     (case res_write c m w of Returned w' \<Rightarrow> write_each c ms w' | Threw w' \<Rightarrow> Threw w')"

text \<open>The handler of \<open>GET /api/system/stream\<close>, lines 87-89: the first message and the recent
  entries, \<open>getLogs({limit: 50}).reverse()\<close>.\<close>

definition stream_replay :: "int \<Rightarrow> nat \<Rightarrow> logger \<Rightarrow> sse \<Rightarrow> sse outcome" where
  "stream_replay now c lg w =
     (case res_write c (Connected now) w of
        Threw w' \<Rightarrow> Threw w'
      | Returned w' \<Rightarrow> write_each c (map Data (rev (getLogs lg None None (Some 50)))) w')"

text \<open>Lines 87-91: the same, then \<open>_sseClients.add(res)\<close>.\<close>

definition stream_handshake :: "int \<Rightarrow> nat \<Rightarrow> logger \<Rightarrow> sse \<Rightarrow> sse outcome" where
  "stream_handshake now c lg w =
     (case stream_replay now c lg w of
        Threw w' \<Rightarrow> Threw w'
      | Returned w' \<Rightarrow> Returned (sse_add c w'))"

section \<open>Notions used in the statements\<close>

text \<open>The last \<open>n\<close> elements of a list.\<close>

definition last_n :: "nat \<Rightarrow> 'a list \<Rightarrow> 'a list" where
  "last_n n xs = drop (length xs - n) xs"

text \<open>An entry passes the filters of \<open>getLogs\<close>.\<close>

definition passes :: "string option \<Rightarrow> string option \<Rightarrow> entry \<Rightarrow> bool" where
  "passes lvl md e =
     ((if truthy lvl then Some (level_name (e_level e)) = lvl else True) \<and>
      (if truthy md then Some (e_module e) = md else True))"

text \<open>Sample inputs: a clock that does not advance during one call of \<open>_write\<close>, a call of
  a level method with a message at such a clock, a request with a status and a latency, and two
  listeners over a world that lists the entries it was notified of, one that throws and one that
  records.\<close>

definition steady :: "int \<Rightarrow> clock" where
  "steady t = \<lparr>k_date = t, k_uptime = t, k_id = t\<rparr>"

definition sample_call :: "level \<Rightarrow> string \<Rightarrow> int \<Rightarrow> write_call" where
  "sample_call l m t =
     \<lparr>c_level = l, c_module = None, c_message = m, c_meta = None, c_clock = steady t,
      c_rand = ''k11x''\<rparr>"

definition sample_request :: "nat \<Rightarrow> rat \<Rightarrow> request" where
  "sample_request status ms =
     \<lparr>rq_method = ''GET'', rq_path = ''/api/x'', rq_status = status, rq_elapsedMs = ms\<rparr>"

definition failing_listener :: "(entry, entry list) listener" where
  "failing_listener e w = Threw w"

definition recording_listener :: "(entry, entry list) listener" where
  "recording_listener e w = Returned (w @ [e])"

definition request_to :: "string \<Rightarrow> nat \<Rightarrow> rat \<Rightarrow> request" where
  "request_to path status ms =
     \<lparr>rq_method = ''GET'', rq_path = path, rq_status = status, rq_elapsedMs = ms\<rparr>"

text \<open>Four completed requests on three routes; a logger that has written the entries A, B
  and C; two streaming clients, the first of which has a broken connection.\<close>

definition three_routes :: stats where
  "three_routes = completions [request_to ''/a'' 200 10, request_to ''/b'' 200 20,
     request_to ''/c'' 500 30, request_to ''/b'' 404 41] (new_stats 0)"

definition logged3 :: logger where
  "logged3 = fst (record_all 2000 [] [sample_call Info ''A'' 1, sample_call Warn ''B'' 2,
       sample_call Error ''C'' 3] (new_logger 0) ())"

definition two_clients :: sse where
  "two_clients = \<lparr>clients = [1, 2], sinks = (\<lambda>c. \<lparr>received = [], broken = (c = 1)\<rparr>)\<rparr>"

section \<open>The ring buffer and the lifetime counters\<close>

lemma store_simps [simp]:
  "lg_startTime (store M e lg) = lg_startTime lg"
  "lg_stats (store M e lg) = (lg_stats lg)(e_level e := lg_stats lg (e_level e) + 1)"
  by (simp_all add: store_def Let_def)

lemma store_buffer:
  "lg_buffer (store M e lg) =
     (if M < Suc (length (lg_buffer lg)) then tl (lg_buffer lg @ [e]) else lg_buffer lg @ [e])"
  by (simp add: store_def Let_def)

lemma store_last_n:
  assumes "length (lg_buffer lg) \<le> M"
  shows "lg_buffer (store M e lg) = last_n M (lg_buffer lg @ [e])"
proof (cases "M < Suc (length (lg_buffer lg))")
  case True
  with assms have "length (lg_buffer lg) = M" by simp
  then show ?thesis using True
    by (cases "lg_buffer lg") (auto simp: store_buffer last_n_def)
next
  case False
  then show ?thesis by (simp add: store_buffer last_n_def)
qed

lemma last_n_absorb: "last_n M (last_n M ys @ zs) = last_n M (ys @ zs)"
  by (cases "length ys \<le> M") (simp_all add: last_n_def add.commute)

lemma length_last_n [simp]: "length (last_n M xs) = min M (length xs)"
  by (simp add: last_n_def)

lemma write_logger [simp]:
  "wr_logger (K11Logger_write M ls c lg w) = store M (make_entry (lg_startTime lg) c) lg"
  by (simp add: K11Logger_write_def Let_def split: outcome.splits)

lemma record_all_startTime [simp]:
  "lg_startTime (fst (record_all M ls cs lg w)) = lg_startTime lg"
  by (induction cs arbitrary: lg w) (simp_all add: Let_def)

lemma record_all_buffer:
  "length (lg_buffer lg) \<le> M \<Longrightarrow>
   lg_buffer (fst (record_all M ls cs lg w)) =
     last_n M (lg_buffer lg @ map (make_entry (lg_startTime lg)) cs)"
proof (induction cs arbitrary: lg w)
  case Nil
  then show ?case by (simp add: last_n_def)
next
  case (Cons c cs)
  let ?e = "make_entry (lg_startTime lg) c"
  let ?lg = "store M ?e lg"
  have b: "lg_buffer ?lg = last_n M (lg_buffer lg @ [?e])"
    using Cons.prems by (rule store_last_n)
  then have len: "length (lg_buffer ?lg) \<le> M" by simp
  show ?case
    using Cons.IH [OF len, of "wr_world (K11Logger_write M ls c lg w)"]
    by (simp add: Let_def b last_n_absorb)
qed

lemma record_all_stats:
  "lg_stats (fst (record_all M ls cs lg w)) l =
     lg_stats lg l + length (filter (\<lambda>c. c_level c = l) cs)"
  by (induction cs arbitrary: lg w) (simp_all add: Let_def make_entry_def)


lemma matching_filter: "matching lvl md es = filter (passes lvl md) es"
  by (auto simp: matching_def passes_def Let_def intro: filter_cong)

lemma js_slice_neg: "0 < n \<Longrightarrow> js_slice (- n) xs = last_n (nat n) xs"
  by (auto simp: js_slice_def last_n_def max_def nat_diff_distrib' intro: arg_cong[where f="\<lambda>k. drop k xs"])

lemma js_slice_nonneg: "js_slice (int k) xs = drop k xs"
  by (simp add: js_slice_def min_def)

lemma js_slice_zero: "js_slice 0 xs = xs"
  by (simp add: js_slice_def)

lemma rev_last_n: "rev (last_n n xs) = take n (rev xs)"
  by (cases "n \<le> length xs") (simp_all add: last_n_def rev_drop)

lemma getLogs_positive_limit:
  assumes "0 < n"
  shows "getLogs lg lvl md (Some n) = take (nat n) (rev (filter (passes lvl md) (lg_buffer lg)))"
  using assms by (simp add: getLogs_def js_slice_neg rev_last_n matching_filter)

lemma getLogs_bounded:
  assumes "0 < n"
  shows "length (getLogs lg lvl md (Some n)) \<le> nat n \<and>
         (\<forall>e \<in> set (getLogs lg lvl md (Some n)). passes lvl md e \<and> e \<in> set (lg_buffer lg))"
proof -
  have "set (getLogs lg lvl md (Some n)) \<subseteq> set (filter (passes lvl md) (lg_buffer lg))"
    using assms set_take_subset [of "nat n" "rev (filter (passes lvl md) (lg_buffer lg))"]
    by (simp add: getLogs_positive_limit)
  then show ?thesis
    using assms by (auto simp: getLogs_positive_limit)
qed

lemma getLogs_default_limit:
  "getLogs lg lvl md None = take 200 (rev (filter (passes lvl md) (lg_buffer lg)))"
  by (simp add: getLogs_def js_slice_neg rev_last_n matching_filter)

text \<open>
  Claim C4. With a capacity \<open>MAX_LINES\<close> of at least one, after \<open>n\<close> calls of \<open>_write\<close> on a
  new logger, \<open>n\<close> larger than the capacity, the buffer holds exactly \<open>MAX_LINES\<close>
  entries, which are the last \<open>MAX_LINES\<close> that were written, in the order of the calls;
  \<open>getLogs({limit: MAX_LINES})\<close> returns \<open>MAX_LINES\<close> entries, and the oldest of them, the
  last of the answer, is the entry of call number \<open>n - MAX_LINES + 1\<close>. One more append drops
  the oldest entry and nothing else. The listeners do not matter, nor whether they throw.
\<close>

theorem ring_bound:
  assumes "0 < M" and "M < length cs"
  shows "length (lg_buffer (fst (record_all M ls cs (new_logger t0) w))) = M \<and>
         lg_buffer (fst (record_all M ls cs (new_logger t0) w)) =
           drop (length cs - M) (map (make_entry t0) cs) \<and>
         length (getLogs (fst (record_all M ls cs (new_logger t0) w)) None None (Some (int M))) = M \<and>
         last (getLogs (fst (record_all M ls cs (new_logger t0) w)) None None (Some (int M))) =
           make_entry t0 (cs ! (length cs - M)) \<and>
         lg_buffer (store M e (fst (record_all M ls cs (new_logger t0) w))) =
           tl (lg_buffer (fst (record_all M ls cs (new_logger t0) w))) @ [e]"
proof -
  let ?lg = "fst (record_all M ls cs (new_logger t0) w)"
  let ?es = "map (make_entry t0) cs"
  have buf: "lg_buffer ?lg = drop (length cs - M) ?es"
    using record_all_buffer [of "new_logger t0" M ls cs w]
    by (simp add: new_logger_def last_n_def)
  have len: "length (lg_buffer ?lg) = M"
    using assms by (simp add: buf)
  have ne: "lg_buffer ?lg \<noteq> []"
    using len assms by auto
  have q: "getLogs ?lg None None (Some (int M)) = rev (lg_buffer ?lg)"
    using assms js_slice_neg [of "int M" "lg_buffer ?lg"] len
    by (simp add: getLogs_def matching_def truthy_def last_n_def)
  have "last (rev (lg_buffer ?lg)) = hd (lg_buffer ?lg)"
    using ne by (simp add: last_rev)
  also have "\<dots> = ?es ! (length cs - M)"
    using assms by (simp add: buf hd_drop_conv_nth)
  also have "\<dots> = make_entry t0 (cs ! (length cs - M))"
    using assms by simp
  finally have oldest: "last (rev (lg_buffer ?lg)) = make_entry t0 (cs ! (length cs - M))" .
  have step: "lg_buffer (store M e ?lg) = tl (lg_buffer ?lg) @ [e]"
    using ne len by (simp add: store_buffer)
  show ?thesis
    using buf len q oldest step by simp
qed

text \<open>
  The specification's scenario, with a capacity of two: after the entries A, B and C the buffer
  is B, C and the oldest surviving entry is B, the second that was written.
\<close>

theorem ring_bound_witness:
  "(0::nat) < 2 \<and>
   2 < length [sample_call Info ''A'' 1, sample_call Warn ''B'' 2, sample_call Error ''C'' 3] \<and>
   lg_buffer (fst (record_all 2 [] [sample_call Info ''A'' 1, sample_call Warn ''B'' 2,
       sample_call Error ''C'' 3] (new_logger 0) ())) =
     [make_entry 0 (sample_call Warn ''B'' 2), make_entry 0 (sample_call Error ''C'' 3)] \<and>
   last (getLogs (fst (record_all 2 [] [sample_call Info ''A'' 1, sample_call Warn ''B'' 2,
       sample_call Error ''C'' 3] (new_logger 0) ())) None None (Some 2)) =
     make_entry 0 (sample_call Warn ''B'' 2)"
proof -
  let ?cs = "[sample_call Info ''A'' 1, sample_call Warn ''B'' 2, sample_call Error ''C'' 3]"
  have h1: "(0::nat) < 2" by simp
  have h2: "2 < length ?cs" by simp
  have v: "drop (length ?cs - 2) (map (make_entry 0) ?cs) =
      [make_entry 0 (sample_call Warn ''B'' 2), make_entry 0 (sample_call Error ''C'' 3)]"
    by simp
  have n: "?cs ! (length ?cs - 2) = sample_call Warn ''B'' 2" by simp
  have i: "int 2 = 2" by simp
  show ?thesis
    using h1 h2 ring_bound [OF h1 h2, of "[]" 0 "()"] unfolding v n i by blast
qed

lemma level_counts_total:
  "foldl (+) 0 (map (\<lambda>l. length (filter (\<lambda>c. c_level c = l) cs)) [Debug, Info, Warn, Error, Critical])
     = length cs"
proof (induction cs)
  case Nil
  show ?case by simp
next
  case (Cons c cs)
  then show ?case by (cases "c_level c") simp_all
qed

text \<open>
  Claim C5. After \<open>MAX_LINES + k\<close> calls at level \<open>error\<close> on a new logger,
  \<open>getStats\<close> reports \<open>MAX_LINES + k\<close> errors while the buffer holds \<open>MAX_LINES\<close>
  entries. From every state and for every sequence of calls, the counter of a level grows by the
  number of calls at that level, whatever the capacity, and so never decreases. In every state
  \<open>total\<close> is the sum of the five counters and \<open>bufferSize\<close> is the number of entries in
  the buffer; on a logger that started new, \<open>total\<close> is the number of calls made.
\<close>

theorem lifetime_counts:
  assumes "\<forall>c \<in> set cs. c_level c = Error" and "length cs = M + k"
  shows "ls_error (getStats (fst (record_all M ls cs (new_logger t0) w)) now) = M + k \<and>
         ls_bufferSize (getStats (fst (record_all M ls cs (new_logger t0) w)) now) = M \<and>
         lg_stats (fst (record_all M ls cs' lg w')) l =
           lg_stats lg l + length (filter (\<lambda>c. c_level c = l) cs') \<and>
         lg_stats lg l \<le> lg_stats (fst (record_all M ls cs' lg w')) l \<and>
         ls_total (getStats lg now) =
           ls_debug (getStats lg now) + ls_info (getStats lg now) + ls_warn (getStats lg now)
           + ls_error (getStats lg now) + ls_critical (getStats lg now) \<and>
         ls_total (getStats (fst (record_all M ls cs' (new_logger t0) w')) now) = length cs' \<and>
         ls_bufferSize (getStats lg now) = length (lg_buffer lg)"
proof -
  let ?lg = "fst (record_all M ls cs (new_logger t0) w)"
  have all: "filter (\<lambda>c. c_level c = Error) cs = cs"
    using assms(1) by (simp add: filter_id_conv)
  have err: "lg_stats ?lg Error = M + k"
    using assms(2) by (simp add: record_all_stats all new_logger_def)
  have "lg_buffer ?lg = last_n M (map (make_entry t0) cs)"
    using record_all_buffer [of "new_logger t0" M ls cs w] by (simp add: new_logger_def)
  then have size: "length (lg_buffer ?lg) = M"
    using assms(2) by simp
  have total: "ls_total (getStats (fst (record_all M ls cs' (new_logger t0) w')) now) = length cs'"
    using level_counts_total [of cs']
    by (simp add: getStats_def record_all_stats new_logger_def)
  show ?thesis
    using err size total by (simp add: getStats_def record_all_stats)
qed

text \<open>
  Three errors into a buffer of two: three are counted, two are held.
\<close>

theorem lifetime_counts_witness:
  "c_level (sample_call Error ''A'' 1) = Error \<and> c_level (sample_call Error ''B'' 2) = Error \<and>
   c_level (sample_call Error ''C'' 3) = Error \<and>
   length [sample_call Error ''A'' 1, sample_call Error ''B'' 2, sample_call Error ''C'' 3] = 2 + 1 \<and>
   ls_error (getStats (fst (record_all 2 [] [sample_call Error ''A'' 1, sample_call Error ''B'' 2,
       sample_call Error ''C'' 3] (new_logger 0) ())) 5) = 2 + 1 \<and>
   ls_bufferSize (getStats (fst (record_all 2 [] [sample_call Error ''A'' 1, sample_call Error ''B'' 2,
       sample_call Error ''C'' 3] (new_logger 0) ())) 5) = 2"
proof -
  let ?cs = "[sample_call Error ''A'' 1, sample_call Error ''B'' 2, sample_call Error ''C'' 3]"
  have h1: "\<forall>c \<in> set ?cs. c_level c = Error"
    by (simp add: sample_call_def)
  have h2: "length ?cs = 2 + 1"
    by simp
  have h0: "c_level (sample_call Error ''A'' 1) = Error \<and> c_level (sample_call Error ''B'' 2) = Error \<and>
      c_level (sample_call Error ''C'' 3) = Error"
    by (simp add: sample_call_def)
  show ?thesis
    using h0 h2 lifetime_counts [OF h1 h2, of "[]" 0 "()" 5] by blast
qed

section \<open>Reading the buffer\<close>

text \<open>
  Claim C10. With \<open>limit = 0\<close> the answer of \<open>getLogs\<close> is every entry of the buffer
  that passes the filters, newest first, since \<open>slice(-0)\<close> is \<open>slice(0)\<close>. With a
  negative limit \<open>-k\<close> it is \<open>slice(k)\<close>: the entries that pass the filters without the
  \<open>k\<close> oldest of them, newest first.
\<close>

theorem getLogs_nonpositive_limit:
  "getLogs lg lvl md (Some 0) = rev (matching lvl md (lg_buffer lg)) \<and>
   getLogs lg lvl md (Some (- int k)) = rev (drop k (matching lvl md (lg_buffer lg))) \<and>
   matching lvl md (lg_buffer lg) = filter (passes lvl md) (lg_buffer lg)"
  by (simp add: getLogs_def matching_filter js_slice_zero js_slice_nonneg)

text \<open>
  Claim C6 says that \<open>getLogs\<close> returns at most \<open>limit\<close> entries, for every filters
  object. The comment of the method reads "the last N entries", and for a positive limit, and
  for the default of 200, that is what it returns: the first \<open>limit\<close> entries of the
  filtered buffer read from its newest end (\<open>getLogs_positive_limit\<close>,
  \<open>getLogs_default_limit\<close>, \<open>getLogs_bounded\<close>). With \<open>limit = 0\<close>, which the route
  \<open>GET /api/system/logs?limit=0\<close> passes on, the answer is not empty: of the entries A at
  level info and B, C at level error, the query for level error with limit 0 returns C and B.
\<close>

theorem getLogs_limit_zero:
  "getLogs (fst (record_all 2000 [] [sample_call Info ''A'' 1, sample_call Error ''B'' 2,
       sample_call Error ''C'' 3] (new_logger 0) ())) (Some ''error'') None (Some 0) =
     [make_entry 0 (sample_call Error ''C'' 3), make_entry 0 (sample_call Error ''B'' 2)]"
  by code_simp

section \<open>Listeners that throw\<close>

lemma emit_append:
  "emit (xs @ ys) e w = (case emit xs e w of Returned w' \<Rightarrow> emit ys e w' | Threw w' \<Rightarrow> Threw w')"
  by (induction xs arbitrary: w) (simp_all split: outcome.splits)

text \<open>
  Claim C2 says that a listener that throws does not make \<open>_write\<close> throw and does not
  keep the remaining listeners from being notified. \<open>_write\<close> calls \<open>emit\<close> outside any
  \<open>try\<close>: with a listener that throws registered before one that records, \<open>_write\<close>
  throws and the recording listener has seen nothing, while alone it would have seen the entry.
\<close>

theorem throwing_listener_counterexample:
  "wr_result (K11Logger_write 2000 [failing_listener, recording_listener]
     (sample_call Info ''A'' 1) (new_logger 0) []) = Thrown \<and>
   wr_world (K11Logger_write 2000 [failing_listener, recording_listener]
     (sample_call Info ''A'' 1) (new_logger 0) []) = [] \<and>
   wr_world (K11Logger_write 2000 [recording_listener]
     (sample_call Info ''A'' 1) (new_logger 0) []) = [make_entry 0 (sample_call Info ''A'' 1)]"
  by (simp add: K11Logger_write_def Let_def failing_listener_def recording_listener_def new_logger_def)

text \<open>
  Claim C2, as the code has it. When the listeners registered before \<open>l\<close> return and
  \<open>l\<close> throws, \<open>_write\<close> throws to its caller, the listeners after \<open>l\<close> are not
  called (the world is as \<open>l\<close> left it), and the counters and the buffer, updated before
  \<open>emit\<close>, are what they are for any other listeners, those that return included.
\<close>

theorem write_listener_failure:
  assumes "emit pre (make_entry (lg_startTime lg) c) w = Returned w1"
    and "l (make_entry (lg_startTime lg) c) w1 = Threw w2"
  shows "wr_result (K11Logger_write M (pre @ l # post) c lg w) = Thrown \<and>
         wr_world (K11Logger_write M (pre @ l # post) c lg w) = w2 \<and>
         wr_logger (K11Logger_write M (pre @ l # post) c lg w) =
           store M (make_entry (lg_startTime lg) c) lg \<and>
         wr_logger (K11Logger_write M (pre @ l # post) c lg w) =
           wr_logger (K11Logger_write M ls' c lg w')"
proof -
  have "emit (pre @ l # post) (make_entry (lg_startTime lg) c) w = Threw w2"
    using assms by (simp add: emit_append)
  then have "wr_result (K11Logger_write M (pre @ l # post) c lg w) = Thrown"
    and "wr_world (K11Logger_write M (pre @ l # post) c lg w) = w2"
    by (simp_all add: K11Logger_write_def Let_def)
  then show ?thesis by simp
qed

text \<open>
  A recording listener, then one that throws, then a second recording listener: the call
  throws and the entry was recorded once.
\<close>

theorem write_listener_failure_witness:
  "emit [recording_listener] (make_entry (lg_startTime (new_logger 0)) (sample_call Info ''A'' 1)) []
     = Returned [make_entry 0 (sample_call Info ''A'' 1)] \<and>
   failing_listener (make_entry (lg_startTime (new_logger 0)) (sample_call Info ''A'' 1))
     [make_entry 0 (sample_call Info ''A'' 1)] = Threw [make_entry 0 (sample_call Info ''A'' 1)] \<and>
   wr_result (K11Logger_write 2000 ([recording_listener] @ failing_listener # [recording_listener])
     (sample_call Info ''A'' 1) (new_logger 0) []) = Thrown \<and>
   wr_world (K11Logger_write 2000 ([recording_listener] @ failing_listener # [recording_listener])
     (sample_call Info ''A'' 1) (new_logger 0) []) = [make_entry 0 (sample_call Info ''A'' 1)]"
proof -
  have h1: "emit [recording_listener] (make_entry (lg_startTime (new_logger 0)) (sample_call Info ''A'' 1)) []
     = Returned [make_entry 0 (sample_call Info ''A'' 1)]"
    by (simp add: recording_listener_def new_logger_def)
  have h2: "failing_listener (make_entry (lg_startTime (new_logger 0)) (sample_call Info ''A'' 1))
     [make_entry 0 (sample_call Info ''A'' 1)] = Threw [make_entry 0 (sample_call Info ''A'' 1)]"
    by (simp add: failing_listener_def)
  show ?thesis
    using h1 h2
      write_listener_failure [where pre = "[recording_listener]" and l = failing_listener
        and post = "[recording_listener]" and M = 2000 and ls' = "[]" and w' = "[]", OF h1 h2]
    by blast
qed

section \<open>The fan-out to the streaming clients\<close>





section \<open>A new streaming client\<close>

lemma write_each_healthy:
  "\<not> broken (sinks w c) \<Longrightarrow>
   write_each c ms w =
     Returned (w\<lparr>sinks := (sinks w)(c := (sinks w c)\<lparr>received := received (sinks w c) @ ms\<rparr>)\<rparr>)"
proof (induction ms arbitrary: w)
  case Nil
  then show ?case by simp
next
  case (Cons m ms)
  let ?w = "w\<lparr>sinks := (sinks w)(c := (sinks w c)\<lparr>received := received (sinks w c) @ [m]\<rparr>)\<rparr>"
  have "\<not> broken (sinks ?w c)" using Cons.prems by simp
  from Cons.IH [OF this] show ?case
    using Cons.prems by (simp add: res_write_def fun_eq_iff)
qed

lemma recent_50: "rev (getLogs lg None None (Some 50)) = last_n 50 (lg_buffer lg)"
  using js_slice_neg [of 50 "lg_buffer lg"] by (simp add: getLogs_def matching_def truthy_def)

text \<open>
  Claim C8. For a response that is not yet in the set and whose writes succeed, the handler
  writes the acknowledgement and then the last \<open>min(50, bufferSize)\<close> entries of the buffer
  in the order of the buffer, oldest first; in the state these writes leave, the response is
  not in the set, and the handler then continues from that state with the response added at the
  end of the set.
\<close>

theorem stream_handshake_replay:
  assumes "\<not> broken (sinks w c)" and "c \<notin> set (clients w)"
  shows "\<exists>w1. stream_replay now c lg w = Returned w1 \<and>
           c \<notin> set (clients w1) \<and>
           received (sinks w1 c) =
             received (sinks w c) @ Connected now # map Data (last_n 50 (lg_buffer lg)) \<and>
           length (last_n 50 (lg_buffer lg)) = min 50 (length (lg_buffer lg)) \<and>
           last_n 50 (lg_buffer lg) = drop (length (lg_buffer lg) - 50) (lg_buffer lg) \<and>
           stream_handshake now c lg w = Returned (w1\<lparr>clients := clients w @ [c]\<rparr>)"
proof -
  let ?ms = "Connected now # map Data (last_n 50 (lg_buffer lg))"
  let ?w1 = "w\<lparr>sinks := (sinks w)(c := (sinks w c)\<lparr>received := received (sinks w c) @ ?ms\<rparr>)\<rparr>"
  have e: "stream_replay now c lg w = write_each c ?ms w"
    by (simp add: stream_replay_def recent_50 split: outcome.splits)
  have r: "stream_replay now c lg w = Returned ?w1"
    unfolding e using assms(1) by (rule write_each_healthy)
  then have h: "stream_handshake now c lg w = Returned (?w1\<lparr>clients := clients w @ [c]\<rparr>)"
    using assms(2) by (simp add: stream_handshake_def sse_add_def)
  show ?thesis
    using r h assms(2) by (intro exI [of _ ?w1]) (simp add: last_n_def)
qed

text \<open>
  A third client connects to a logger that holds A, B and C.
\<close>

theorem stream_handshake_replay_witness:
  "\<not> broken (sinks two_clients 3) \<and> 3 \<notin> set (clients two_clients) \<and>
   (\<exists>w1. stream_replay 9 3 logged3 two_clients = Returned w1 \<and>
           3 \<notin> set (clients w1) \<and>
           received (sinks w1 3) =
             received (sinks two_clients 3) @ Connected 9 # map Data (last_n 50 (lg_buffer logged3)) \<and>
           length (last_n 50 (lg_buffer logged3)) = min 50 (length (lg_buffer logged3)) \<and>
           last_n 50 (lg_buffer logged3) = drop (length (lg_buffer logged3) - 50) (lg_buffer logged3) \<and>
           stream_handshake 9 3 logged3 two_clients = Returned (w1\<lparr>clients := clients two_clients @ [3]\<rparr>))"
proof -
  have h1: "\<not> broken (sinks two_clients 3)" by (simp add: two_clients_def)
  have h2: "3 \<notin> set (clients two_clients)" by (simp add: two_clients_def)
  show ?thesis
    using h1 h2 stream_handshake_replay [OF h1 h2, of 9 logged3] by blast
qed

section \<open>The request tracker\<close>

lemma decimal_500: "decimal 500 = ''500''"
  by code_simp

lemma store_last:
  "0 < M \<Longrightarrow> last (lg_buffer (store M e lg)) = e \<and> lg_buffer (store M e lg) \<noteq> []"
  by (cases "lg_buffer lg") (auto simp: store_buffer)

text \<open>
  Claim C1 says that a completion with a status of 500 or more always writes an entry at
  level \<open>error\<close>, also when the request was slow. The handler tests the status in the
  \<open>else\<close> branch of the test for slowness: a request that took 900 ms and ended with status
  500 is counted as a server error, and the logger receives one entry, at level \<open>warn\<close>,
  and none at level \<open>error\<close>.
\<close>

theorem slow_server_error_counterexample:
  "lg_stats (fr_logger (recordCompletion 2000 [] (steady 0) ''k11x'' (sample_request 500 900)
     (new_stats 0) (new_logger 0) ())) Error = 0 \<and>
   map e_level (lg_buffer (fr_logger (recordCompletion 2000 [] (steady 0) ''k11x'' (sample_request 500 900)
     (new_stats 0) (new_logger 0) ()))) = [Warn] \<and>
   s_errors5xx (fr_stats (recordCompletion 2000 [] (steady 0) ''k11x'' (sample_request 500 900)
     (new_stats 0) (new_logger 0) ())) = 1"
  by code_simp

text \<open>
  Claim C1, as the code has it. The handler writes at most one entry. A request slower than
  500 ms gives one entry at level \<open>warn\<close>, whose meta carries the rounded latency and the
  status, whatever the status is. A request that is not slow and has a status of 500 or more
  gives one entry at level \<open>error\<close>. Any other request leaves the logger as it was.
\<close>

theorem completion_log_levels:
  assumes "0 < M"
  shows "fr_stats (recordCompletion M ls now rnd r st lg w) = update_stats st r \<and>
    (if rq_elapsedMs r > 500 then
       lg_stats (fr_logger (recordCompletion M ls now rnd r st lg w)) =
         (lg_stats lg)(Warn := lg_stats lg Warn + 1) \<and>
       e_level (last (lg_buffer (fr_logger (recordCompletion M ls now rnd r st lg w)))) = Warn \<and>
       e_meta (last (lg_buffer (fr_logger (recordCompletion M ls now rnd r st lg w)))) =
         Some [(''ms'', js_round (rq_elapsedMs r)), (''status'', int (rq_status r))]
     else if rq_status r \<ge> 500 then
       lg_stats (fr_logger (recordCompletion M ls now rnd r st lg w)) =
         (lg_stats lg)(Error := lg_stats lg Error + 1) \<and>
       e_level (last (lg_buffer (fr_logger (recordCompletion M ls now rnd r st lg w)))) = Error \<and>
       e_meta (last (lg_buffer (fr_logger (recordCompletion M ls now rnd r st lg w)))) =
         Some [(''ms'', js_round (rq_elapsedMs r))]
     else fr_logger (recordCompletion M ls now rnd r st lg w) = lg)"
  using assms
  by (simp add: recordCompletion_def slow_or_error_log_def SLOW_THRESHOLD_MS_def Let_def
      store_last make_entry_def)

text \<open>
  A request that ended with status 500 after 100 ms: one entry at level \<open>error\<close>.
\<close>

theorem completion_log_levels_witness:
  "(0::nat) < 2000 \<and>
   lg_stats (fr_logger (recordCompletion 2000 [] (steady 0) ''k11x'' (sample_request 500 100)
     (new_stats 0) (new_logger 0) ())) =
     (lg_stats (new_logger 0))(Error := lg_stats (new_logger 0) Error + 1) \<and>
   e_level (last (lg_buffer (fr_logger (recordCompletion 2000 [] (steady 0) ''k11x'' (sample_request 500 100)
     (new_stats 0) (new_logger 0) ())))) = Error"
proof -
  have h: "(0::nat) < 2000" by simp
  have a: "\<not> rq_elapsedMs (sample_request 500 100) > 500" "rq_status (sample_request 500 100) \<ge> 500"
    by (simp_all add: sample_request_def)
  show ?thesis
    using h a completion_log_levels [OF h, of "[]" "steady 0" "''k11x''" "sample_request 500 100"
        "new_stats 0" "new_logger 0" "()"]
    by presburger
qed

subsection \<open>The rolling average\<close>












text \<open>
  The tolerance has to grow with the number of steps, as each step rounds again what the steps
  before have rounded: after the latencies 8, 7, 7, 6, 6, 5, 5, 4, 4 the reported average is
  still 8, while the mean is 52/9, so the two are more than 1 ms apart (and within the 9 ms
  that nine steps allow).
\<close>

lemma drift_exceeds_one_ms:
  "\<not> \<bar>of_int (s_avgLatencyMs
            (completions (map (sample_request 200) [8, 7, 7, 6, 6, 5, 5, 4, 4]) (new_stats 0)))
        - sum_list (map rq_elapsedMs (map (sample_request 200) [8, 7, 7, 6, 6, 5, 5, 4, 4]))
          / of_nat (length (map (sample_request 200) [8, 7, 7, 6, 6, 5, 5, 4, 4 :: rat]))\<bar>
      \<le> (1 :: rat)"
  by code_simp

subsection \<open>The busiest routes\<close>

lemma touch_route_keys:
  "map fst (touch_route k status ms br) = (if k \<in> set (map fst br) then map fst br else map fst br @ [k])"
  by (auto simp: touch_route_def Let_def map_of_eq_None_iff case_prod_beta intro!: map_cong)

lemma sorted_by_count:
  "sorted_wrt (\<lambda>a b. r_count (snd b) \<le> r_count (snd a)) (by_count_desc br)"
proof -
  have "sorted (map (\<lambda>kv. - int (r_count (snd kv))) (by_count_desc br))"
    unfolding by_count_desc_def by (rule sorted_sort_key)
  then show ?thesis by (simp add: sorted_map)
qed

lemma stable_by_count:
  "filter (\<lambda>kv. r_count (snd kv) = n) (by_count_desc br) = filter (\<lambda>kv. r_count (snd kv) = n) br"
  using sort_key_stable [of "\<lambda>kv. - int (r_count (snd kv))" "- int n" br]
  by (simp add: by_count_desc_def)

lemma top_above_rest:
  assumes "sorted_wrt P xs" and "a \<in> set (take k xs)" and "b \<in> set (drop k xs)"
  shows "P a b"
proof -
  have "sorted_wrt P (take k xs @ drop k xs)" using assms(1) by simp
  then show ?thesis using assms(2,3) unfolding sorted_wrt_append by blast
qed

text \<open>
  Claim C7. In the snapshot \<open>requestTracker.getStats\<close> returns, beside the counters and the
  uptime, \<open>topRoutes\<close> is the view of the first ten routes of \<open>byRoute\<close> sorted by
  descending count: it has ten elements, or all the routes when there are fewer; its counts
  descend; no route left out has a larger count than a route kept; the sort rearranges the
  routes, and the routes of one count keep among themselves the order they have in
  \<open>byRoute\<close>, which is the order of their first request (\<open>touch_route_keys\<close>); each
  element carries the route, its count, its errors and \<open>round(totalMs / count)\<close>.
\<close>

theorem topRoutes_ranking:
  "rs_topRoutes (requestTracker_getStats st now) =
     map route_view (take 10 (by_count_desc (s_byRoute st))) \<and>
   rs_topRoutes (requestTracker_getStats st now) = topRoutes st \<and>
   rs_stats (requestTracker_getStats st now) = st \<and>
   rs_uptimeMs (requestTracker_getStats st now) = now - s_startTime st \<and>
   length (rs_topRoutes (requestTracker_getStats st now)) = min 10 (length (s_byRoute st)) \<and>
   sorted_wrt (\<lambda>a b. tr_count b \<le> tr_count a) (rs_topRoutes (requestTracker_getStats st now)) \<and>
   topRoutes st = map route_view (take 10 (by_count_desc (s_byRoute st))) \<and>
   length (topRoutes st) = min 10 (length (s_byRoute st)) \<and>
   sorted_wrt (\<lambda>a b. tr_count b \<le> tr_count a) (topRoutes st) \<and>
   (\<forall>a \<in> set (take 10 (by_count_desc (s_byRoute st))).
      \<forall>b \<in> set (drop 10 (by_count_desc (s_byRoute st))). r_count (snd b) \<le> r_count (snd a)) \<and>
   (\<forall>n. filter (\<lambda>kv. r_count (snd kv) = n) (by_count_desc (s_byRoute st)) =
        filter (\<lambda>kv. r_count (snd kv) = n) (s_byRoute st)) \<and>
   set (by_count_desc (s_byRoute st)) = set (s_byRoute st) \<and>
   length (by_count_desc (s_byRoute st)) = length (s_byRoute st) \<and>
   (\<forall>kv. tr_route (route_view kv) = fst kv \<and> tr_count (route_view kv) = r_count (snd kv) \<and>
      tr_errors (route_view kv) = r_errors (snd kv) \<and>
      tr_avgMs (route_view kv) = js_round (r_totalMs (snd kv) / of_nat (r_count (snd kv))))"
proof -
  let ?S = "by_count_desc (s_byRoute st)"
  have g: "rs_topRoutes (requestTracker_getStats st now) = topRoutes st"
    and g': "rs_stats (requestTracker_getStats st now) = st"
      "rs_uptimeMs (requestTracker_getStats st now) = now - s_startTime st"
    by (simp_all add: requestTracker_getStats_def)
  have s: "sorted_wrt (\<lambda>a b. r_count (snd b) \<le> r_count (snd a)) ?S"
    by (rule sorted_by_count)
  then have "sorted_wrt (\<lambda>a b. r_count (snd b) \<le> r_count (snd a)) (take 10 ?S)"
    by (rule sorted_wrt_take)
  then have t: "sorted_wrt (\<lambda>a b. tr_count b \<le> tr_count a) (topRoutes st)"
    by (simp add: topRoutes_def sorted_wrt_map route_view_def)
  have r: "\<forall>a \<in> set (take 10 ?S). \<forall>b \<in> set (drop 10 ?S). r_count (snd b) \<le> r_count (snd a)"
    using top_above_rest [OF s] by blast
  have l: "length (topRoutes st) = min 10 (length (s_byRoute st))"
    by (simp add: topRoutes_def by_count_desc_def min.commute)
  have d: "topRoutes st = map route_view (take 10 ?S)"
    by (simp add: topRoutes_def)
  have v: "\<forall>kv. tr_route (route_view kv) = fst kv \<and> tr_count (route_view kv) = r_count (snd kv) \<and>
      tr_errors (route_view kv) = r_errors (snd kv) \<and>
      tr_avgMs (route_view kv) = js_round (r_totalMs (snd kv) / of_nat (r_count (snd kv)))"
    by (simp add: route_view_def)
  have p: "set ?S = set (s_byRoute st)" "length ?S = length (s_byRoute st)"
    by (simp_all add: by_count_desc_def)
  have f: "\<forall>n. filter (\<lambda>kv. r_count (snd kv) = n) ?S =
        filter (\<lambda>kv. r_count (snd kv) = n) (s_byRoute st)"
    by (simp add: stable_by_count)
  show ?thesis
    unfolding g g' using t r l d v p f by blast
qed

text \<open>
  Three routes, one of them requested twice: it comes first in the snapshot, and the two routes
  with one request follow in the order of their first request.
\<close>

theorem topRoutes_ranking_witness:
  "rs_topRoutes (requestTracker_getStats three_routes 7) =
    [\<lparr>tr_route = ''GET /b'', tr_count = 2, tr_avgMs = 31, tr_errors = 1\<rparr>,
     \<lparr>tr_route = ''GET /a'', tr_count = 1, tr_avgMs = 10, tr_errors = 0\<rparr>,
     \<lparr>tr_route = ''GET /c'', tr_count = 1, tr_avgMs = 30, tr_errors = 1\<rparr>] \<and>
   map fst (s_byRoute three_routes) = [''GET /a'', ''GET /b'', ''GET /c''] \<and>
   length (rs_topRoutes (requestTracker_getStats three_routes 7)) =
     min 10 (length (s_byRoute three_routes)) \<and>
   sorted_wrt (\<lambda>a b. tr_count b \<le> tr_count a) (rs_topRoutes (requestTracker_getStats three_routes 7))"
proof -
  have e: "rs_topRoutes (requestTracker_getStats three_routes 7) =
    [\<lparr>tr_route = ''GET /b'', tr_count = 2, tr_avgMs = 31, tr_errors = 1\<rparr>,
     \<lparr>tr_route = ''GET /a'', tr_count = 1, tr_avgMs = 10, tr_errors = 0\<rparr>,
     \<lparr>tr_route = ''GET /c'', tr_count = 1, tr_avgMs = 30, tr_errors = 1\<rparr>]"
    by code_simp
  have k: "map fst (s_byRoute three_routes) = [''GET /a'', ''GET /b'', ''GET /c'']"
    by code_simp
  show ?thesis
    using e k topRoutes_ranking [of three_routes 7] by blast
qed

end
